theory Spec2Isabelle
  imports Main "HOL-Library.Log_Nat"
begin

section \<open>Python numbers\<close>

text \<open>
  The player computes with Python floats (IEEE 754 binary64) and unbounded integers.
  A finite float is an exact rational; an arithmetic operation returns the exact result
  rounded to the nearest binary64 value, ties to even. Infinities and NaN are not
  represented: the clock and the metadata reader are taken to deliver finite values, and
  the one operation below that could overflow on such inputs, \<open>position / duration\<close>, is
  followed by \<open>min(..., 1.0)\<close>, which gives 1.0 for an infinite quotient as it does for
  the huge finite one of this model.
\<close>

type_synonym double = rat

definition pow2 :: "int \<Rightarrow> rat" where
  "pow2 k = (if 0 \<le> k then 2 ^ nat k else 1 / 2 ^ nat (- k))"

text \<open>The binary exponent \<open>\<lfloor>log\<^sub>2 x\<rfloor>\<close> of a positive rational.\<close>

definition ilog2 :: "rat \<Rightarrow> int" where
  "ilog2 x = (let (p, q) = quotient_of x; k = bitlen p - bitlen q
              in if pow2 k \<le> x then k else k - 1)"

definition round_half_even :: "rat \<Rightarrow> int" where
  "round_half_even x =
     (let n = \<lfloor>x\<rfloor>; r = x - of_int n
      in if r < 1 / 2 then n else if 1 / 2 < r then n + 1 else if even n then n else n + 1)"

text \<open>
  Rounding to binary64: 53 significant bits, the spacing of the subnormal range below
  \<open>1 / 2 ^ 1022\<close>.
\<close>

definition binary64 :: "rat \<Rightarrow> double" where
  "binary64 x =
     (if x = 0 then 0
      else let e = max (ilog2 \<bar>x\<bar>) (- 1022); q = pow2 (e - 52)
           in of_int (round_half_even (x / q)) * q)"

definition fadd :: "double \<Rightarrow> double \<Rightarrow> double" where
  "fadd a b = binary64 (a + b)"

definition fsub :: "double \<Rightarrow> double \<Rightarrow> double" where
  "fsub a b = binary64 (a - b)"

definition fmul :: "double \<Rightarrow> double \<Rightarrow> double" where
  "fmul a b = binary64 (a * b)"

definition fdiv :: "double \<Rightarrow> double \<Rightarrow> double" where
  "fdiv a b = binary64 (a / b)"

text \<open>The float literal \<open>0.1\<close>.\<close>

definition tenth :: double where
  "tenth = binary64 (1 / 10)"

text \<open>\<open>int(x)\<close> on a float truncates towards zero.\<close>

definition trunc :: "double \<Rightarrow> int" where
  "trunc x = (if 0 \<le> x then \<lfloor>x\<rfloor> else \<lceil>x\<rceil>)"

section \<open>Python strings and \<open>str(timedelta(seconds=n))\<close>\<close>

definition digit :: "nat \<Rightarrow> char" where
  "digit d = ''0123456789'' ! d"

fun decimal :: "nat \<Rightarrow> string" where
  "decimal n = (if n < 10 then [digit n] else decimal (n div 10) @ [digit (n mod 10)])"

declare decimal.simps [simp del]

text \<open>The conversions \<open>%d\<close> and \<open>%02d\<close>.\<close>

definition str_int :: "int \<Rightarrow> string" where
  "str_int i = (if i < 0 then CHR ''-'' # decimal (nat (- i)) else decimal (nat i))"

definition pad2 :: "int \<Rightarrow> string" where
  "pad2 i = (let d = str_int i in replicate (2 - length d) (CHR ''0'') @ d)"

text \<open>
  \<open>timedelta(seconds=n)\<close> for an integer \<open>n\<close> normalises to days and seconds of the day and
  raises \<open>OverflowError\<close> beyond 999999999 days (\<open>timedelta_overflow\<close>); for a value
  that was constructed, \<open>str\<close> prints \<open>H:MM:SS\<close> with the hour not padded, after
  \<open>D day, \<close> or \<open>D days, \<close> when the days are not zero (\<open>timedelta_str\<close>). The
  microseconds are zero here, so no fraction is printed.
\<close>

definition timedelta_overflow :: "int \<Rightarrow> bool" where
  "timedelta_overflow n = (999999999 < \<bar>n div 86400\<bar>)"

definition timedelta_str :: "int \<Rightarrow> string" where
  "timedelta_str n =
     (let days = n div 86400; seconds = n mod 86400;
          mm = seconds div 60; ss = seconds mod 60;
          hh = mm div 60; mm = mm mod 60;
          s = str_int hh @ '':'' @ pad2 mm @ '':'' @ pad2 ss
      in if days \<noteq> 0
         then str_int days @ '' day'' @ (if \<bar>days\<bar> \<noteq> 1 then ''s'' else '''') @ '', '' @ s
         else s)"

text \<open>
  \<open>str(timedelta(seconds=int(x))).split(".")[0]\<close>, lines 75 and 76: \<open>None\<close> when the
  constructor raises \<open>OverflowError\<close>.
\<close>

definition time_text :: "double \<Rightarrow> string option" where
  "time_text x =
     (if timedelta_overflow (trunc x) then None
      else Some (takeWhile (\<lambda>c. c \<noteq> CHR ''.'') (timedelta_str (trunc x))))"

text \<open>\<open>os.path.basename\<close> on a POSIX path.\<close>

definition basename :: "string \<Rightarrow> string" where
  "basename p = rev (takeWhile (\<lambda>c. c \<noteq> CHR ''/'') (rev p))"

section \<open>The player and what lies outside it\<close>

text \<open>The attributes of \<open>MusicPlayer\<close>.\<close>

record player =
  current_track :: "string option"
  playing :: bool
  current_volume :: double
  paused :: bool
  duration :: double
  start_time :: double
  pause_start :: double
  total_pause_time :: double
  pause_position :: double
  first_display :: bool

text \<open>
  Calls of \<open>pygame.mixer\<close> and lines written to the terminal are recorded in the order in
  which they happen. Colours and styles are left out; a string of the progress bar is a
  list of Unicode code points.
\<close>

datatype mixer_call = Mixer_init | Set_volume double | Load string | Play | Pause | Unpause | Stop

record progress_line =
  percentage :: int
  bar :: "nat list"
  current_time :: string
  total_time :: string
  volume_percent :: int
  pause_icon :: bool

datatype effect =
    Mixer mixer_call
  | Echo string
  | Echo_err string
  | Echo_blank
  | Echo_repaint
  | Echo_title string
  | Echo_progress progress_line

record session = player +
  effects :: "effect list"
  time_reads :: nat

text \<open>
  What the player asks of its collaborators: the value of the \<open>n\<close>-th call of
  \<open>time.time()\<close>, what \<open>mutagen.File\<close> makes of a path, and whether
  \<open>pygame.mixer.music.load\<close> and \<open>play\<close> raise \<open>pygame.error\<close> (with its message).
\<close>

datatype metadata = Unreadable | Falsy | Audio double

record environment =
  clock :: "nat \<Rightarrow> double"
  probe :: "string \<Rightarrow> metadata"
  mixer_load :: "string \<Rightarrow> string option"
  mixer_play :: "string \<Rightarrow> string option"

text \<open>
  A method returns, or an exception other than \<open>pygame.error\<close> leaves it; the session is
  the one reached at that point.
\<close>

datatype exn = MutagenError | TypeError | OverflowError

datatype outcome = Done session | Raised exn session

fun final :: "outcome \<Rightarrow> session" where
  "final (Done s) = s"
| "final (Raised e s) = s"

definition emit :: "effect \<Rightarrow> session \<Rightarrow> session" where
  "emit e s = s\<lparr>effects := effects s @ [e]\<rparr>"

definition time_time :: "environment \<Rightarrow> session \<Rightarrow> double \<times> session" where
  "time_time env s = (clock env (time_reads s), s\<lparr>time_reads := Suc (time_reads s)\<rparr>)"

definition MusicPlayer_init :: session where
  "MusicPlayer_init =
     \<lparr>current_track = None, playing = False, current_volume = 1 / 2, paused = False,
      duration = 0, start_time = 0, pause_start = 0, total_pause_time = 0,
      pause_position = 0, first_display = True,
      effects = [Mixer Mixer_init, Mixer (Set_volume (1 / 2))], time_reads = 0\<rparr>"

definition get_current_position :: "environment \<Rightarrow> session \<Rightarrow> double \<times> session" where
  "get_current_position env s =
     (if \<not> playing s then (0, s)
      else if paused s then (pause_position s, s)
      else let (now, s') = time_time env s
           in (fsub (fsub now (start_time s')) (total_pause_time s'), s'))"

text \<open>The two characters of the bar: U+2501 and U+257A.\<close>

definition heavy_horizontal :: nat where
  "heavy_horizontal = 0x2501"

definition heavy_left :: nat where
  "heavy_left = 0x257A"

definition display_progress_bar :: "double \<Rightarrow> session \<Rightarrow> outcome" where
  "display_progress_bar position s =
     (if duration s \<le> 0 then Done s
      else
        let progress = min (fdiv position (duration s)) 1;
            percentage = trunc (fmul progress 100)
        in (case time_text position of
              None \<Rightarrow> Raised OverflowError s
            | Some elapsed \<Rightarrow>
                (case time_text (duration s) of
                   None \<Rightarrow> Raised OverflowError s
                 | Some whole \<Rightarrow>
                     (let s1 = (if \<not> first_display s then emit Echo_repaint s
                                else emit Echo_blank (s\<lparr>first_display := False\<rparr>))
                      in (case current_track s1 of
                            None \<Rightarrow> Raised TypeError s1
                          | Some track \<Rightarrow>
                              (let s2 = emit (Echo_title (basename track)) s1;
                                   width = 30;
                                   filled = trunc (fmul (of_int width) progress);
                                   bar = replicate (nat filled) heavy_horizontal;
                                   bar = (if filled < width
                                          then bar @ [heavy_left]
                                            @ replicate (nat (width - filled - 1))
                                                heavy_horizontal
                                          else bar);
                                   s3 = emit (Echo_progress
                                          \<lparr>percentage = percentage, bar = bar,
                                           current_time = elapsed,
                                           total_time = whole,
                                           volume_percent =
                                             trunc (fmul (current_volume s2) 100),
                                           pause_icon = paused s2\<rparr>) s2
                               in Done (emit Echo_blank s3)))))))"

definition play_file :: "environment \<Rightarrow> string \<Rightarrow> session \<Rightarrow> outcome" where
  "play_file env file_path s =
     (case probe env file_path of
        Unreadable \<Rightarrow> Raised MutagenError s
      | audio \<Rightarrow>
          (let s1 = s\<lparr>duration := (case audio of Audio len \<Rightarrow> len | _ \<Rightarrow> 0)\<rparr>;
               s2 = emit (Mixer (Load file_path)) s1
           in (case mixer_load env file_path of
                 Some e \<Rightarrow>
                   Done (emit (Echo_err (CHR 0x0D # ''Error playing file: '' @ e)) s2)
               | None \<Rightarrow>
                   (let s3 = emit (Mixer Play) s2
                    in (case mixer_play env file_path of
                          Some e \<Rightarrow>
                            Done (emit (Echo_err (CHR 0x0D # ''Error playing file: '' @ e)) s3)
                        | None \<Rightarrow>
                            (let s4 = s3\<lparr>current_track := Some file_path, playing := True,
                                        paused := False\<rparr>;
                                 (now, s5) = time_time env s4;
                                 s6 = s5\<lparr>start_time := now, total_pause_time := 0,
                                        pause_position := 0, first_display := True\<rparr>
                             in display_progress_bar 0 s6))))))"

definition pause :: "environment \<Rightarrow> session \<Rightarrow> outcome" where
  "pause env s =
     (if playing s \<and> \<not> paused s then
        let s1 = emit (Mixer Pause) s;
            s2 = s1\<lparr>paused := True\<rparr>;
            (now, s3) = time_time env s2;
            s4 = s3\<lparr>pause_start := now\<rparr>;
            (position, s5) = get_current_position env s4;
            s6 = s5\<lparr>pause_position := position\<rparr>
        in display_progress_bar (pause_position s6) s6
      else if playing s \<and> paused s then
        let s1 = emit (Mixer Unpause) s;
            s2 = s1\<lparr>paused := False\<rparr>;
            (now, s3) = time_time env s2;
            s4 = s3\<lparr>total_pause_time :=
                     fadd (total_pause_time s3) (fsub now (pause_start s3))\<rparr>;
            (position, s5) = get_current_position env s4
        in display_progress_bar position s5
      else Done s)"

definition stop :: "session \<Rightarrow> session" where
  "stop s =
     (if playing s then (emit (Mixer Stop) s)\<lparr>playing := False, paused := False\<rparr> else s)"

definition adjust_volume :: "environment \<Rightarrow> bool \<Rightarrow> session \<Rightarrow> outcome" where
  "adjust_volume env up s =
     (let s1 = (if up \<and> current_volume s < 1
                then s\<lparr>current_volume := min 1 (fadd (current_volume s) tenth)\<rparr>
                else if \<not> up \<and> 0 < current_volume s
                then s\<lparr>current_volume := max 0 (fsub (current_volume s) tenth)\<rparr>
                else s);
          s2 = emit (Mixer (Set_volume (current_volume s1))) s1;
          (position, s3) = get_current_position env s2
      in display_progress_bar position s3)"

section \<open>Keys and the playlist loop\<close>




text \<open>
  The loop of \<open>main\<close> over the files of a directory, lines 237 to 255. The thread that
  repaints the progress bar only reads the player and calls \<open>display_progress_bar\<close>; it
  is not part of this model.
\<close>

datatype run =
    Loop_ended int session
  | Process_exit int session
  | Traceback exn session
  | Waiting_for_key int session



text \<open>
  The sessions a program can reach by constructing a player and calling its methods, each
  call with any answers of the collaborators.
\<close>

inductive reachable :: "session \<Rightarrow> bool" where
  init: "reachable MusicPlayer_init"
| play_file: "reachable s \<Longrightarrow> reachable (final (play_file env file_path s))"
| pause: "reachable s \<Longrightarrow> reachable (final (pause env s))"
| stop: "reachable s \<Longrightarrow> reachable (stop s)"
| adjust_volume: "reachable s \<Longrightarrow> reachable (final (adjust_volume env up s))"
| display: "reachable s \<Longrightarrow> reachable (final (display_progress_bar position s))"
| position: "reachable s \<Longrightarrow> reachable (snd (get_current_position env s))"

section \<open>Observations, drivers and sample environments\<close>

text \<open>The progress lines among the effects, oldest first.\<close>

fun frames :: "effect list \<Rightarrow> progress_line list" where
  "frames [] = []"
| "frames (Echo_progress line # es) = line # frames es"
| "frames (e # es) = frames es"

text \<open>
  A caller that issues a sequence of \<open>adjust_volume\<close> calls and stops when an exception
  leaves one of them.
\<close>

fun adjust_volumes :: "environment \<Rightarrow> bool list \<Rightarrow> session \<Rightarrow> outcome" where
  "adjust_volumes env [] s = Done s"
| "adjust_volumes env (up # ups) s =
     (case adjust_volume env up s of
        Done s' \<Rightarrow> adjust_volumes env ups s'
      | Raised e s' \<Rightarrow> Raised e s')"

text \<open>The assignment of lines 129 to 132 as a function of the old volume.\<close>

definition volume_step :: "bool \<Rightarrow> double \<Rightarrow> double" where
  "volume_step up v =
     (if up \<and> v < 1 then min 1 (fadd v tenth)
      else if \<not> up \<and> 0 < v then max 0 (fsub v tenth)
      else v)"

text \<open>\<open>play_file\<close> gets as far as starting the track.\<close>

definition starts :: "environment \<Rightarrow> string \<Rightarrow> bool" where
  "starts env file_path \<longleftrightarrow>
     probe env file_path \<noteq> Unreadable \<and> mixer_load env file_path = None
       \<and> mixer_play env file_path = None"

text \<open>
  Sample collaborators: a clock that advances ten seconds between two readings, files of
  100 seconds that load and play; the same with a file \<open>a.mp3\<close> that the mixer refuses; the
  same with a clock that is set back by ten seconds after its first reading; the same
  with files for which \<open>mutagen.File\<close> returns a false value; the same with files on
  which \<open>mutagen.File\<close> raises.
\<close>

definition studio :: environment where
  "studio =
     \<lparr>clock = (\<lambda>n. 100 + 10 * of_nat n), probe = (\<lambda>path. Audio 100),
      mixer_load = (\<lambda>path. None), mixer_play = (\<lambda>path. None)\<rparr>"


definition set_back :: environment where
  "set_back = studio\<lparr>clock := (\<lambda>n. if n = 0 then 100 else 90)\<rparr>"



section \<open>Rounding\<close>

lemma pow2_power_int: "pow2 k = power_int 2 k"
  by (simp add: pow2_def power_int_def field_simps)

lemma pow2_pos: "0 < pow2 k"
  by (simp add: pow2_def)

lemma pow2_add: "pow2 (a + b) = pow2 a * pow2 b"
  by (simp add: pow2_power_int power_int_add)

lemma pow2_nat: "0 \<le> k \<Longrightarrow> pow2 k = of_int (2 ^ nat k)"
  by (simp add: pow2_def)

lemma pow2_strict_mono: "a < b \<Longrightarrow> pow2 a < pow2 b"
  by (simp add: pow2_power_int power_int_strict_increasing)

lemma pow2_less_iff: "pow2 a < pow2 b \<longleftrightarrow> a < b"
  using pow2_strict_mono [of a b] pow2_strict_mono [of b a]
  by (cases a b rule: linorder_cases) auto

lemma ilog2_bounds:
  assumes "0 < x"
  shows "pow2 (ilog2 x) \<le> x \<and> x < pow2 (ilog2 x + 1)"
proof -
  obtain p q where pq: "quotient_of x = (p, q)"
    by (cases "quotient_of x")
  then have q: "0 < q" and x: "x = of_int p / of_int q"
    using quotient_of_denom_pos quotient_of_div by blast+
  with assms have p: "0 < p"
    by (simp add: zero_less_divide_iff)
  define bp where "bp = bitlen p"
  define bq where "bq = bitlen q"
  have bp: "2 ^ nat (bp - 1) \<le> p" "p < 2 ^ nat bp" and bq: "2 ^ nat (bq - 1) \<le> q" "q < 2 ^ nat bq"
    using bitlen_bounds [OF p] bitlen_bounds [OF q] by (simp_all add: bp_def bq_def)
  have bp1: "1 \<le> bp"
  proof (rule ccontr)
    assume "\<not> 1 \<le> bp"
    then have "nat bp = 0" by simp
    with bp(2) have "p < 1" by simp
    with p show False by simp
  qed
  have bq1: "1 \<le> bq"
  proof (rule ccontr)
    assume "\<not> 1 \<le> bq"
    then have "nat bq = 0" by simp
    with bq(2) have "q < 1" by simp
    with q show False by simp
  qed
  have P1: "pow2 (bp - 1) \<le> of_int p"
  proof -
    have "pow2 (bp - 1) = of_int (2 ^ nat (bp - 1))"
      using bp1 by (intro pow2_nat) simp
    then show ?thesis using bp(1) by (simp only: of_int_le_iff)
  qed
  have P2: "(of_int p :: rat) < pow2 bp"
  proof -
    have "pow2 bp = of_int (2 ^ nat bp)"
      using bp1 by (intro pow2_nat) simp
    then show ?thesis using bp(2) by (simp only: of_int_less_iff)
  qed
  have Q1: "pow2 (bq - 1) \<le> of_int q"
  proof -
    have "pow2 (bq - 1) = of_int (2 ^ nat (bq - 1))"
      using bq1 by (intro pow2_nat) simp
    then show ?thesis using bq(1) by (simp only: of_int_le_iff)
  qed
  have Q2: "(of_int q :: rat) < pow2 bq"
  proof -
    have "pow2 bq = of_int (2 ^ nat bq)"
      using bq1 by (intro pow2_nat) simp
    then show ?thesis using bq(2) by (simp only: of_int_less_iff)
  qed
  have qpos: "(0::rat) < of_int q" using q by simp
  have up: "x < pow2 (bp - bq + 1)"
  proof -
    have "pow2 bp = pow2 (bp - bq + 1) * pow2 (bq - 1)"
      using pow2_add [of "bp - bq + 1" "bq - 1"] by simp
    also have "\<dots> \<le> pow2 (bp - bq + 1) * of_int q"
      using Q1 pow2_pos [of "bp - bq + 1"] by (simp only: mult_le_cancel_left_pos)
    finally have "of_int p < pow2 (bp - bq + 1) * of_int q"
      using P2 by simp
    then show ?thesis
      using qpos by (simp only: x pos_divide_less_eq)
  qed
  have low: "pow2 (bp - bq - 1) \<le> x"
  proof -
    have "pow2 (bp - bq - 1) * of_int q \<le> pow2 (bp - bq - 1) * pow2 bq"
      using Q2 pow2_pos [of "bp - bq - 1"] by (simp only: mult_le_cancel_left_pos less_imp_le)
    also have "pow2 (bp - bq - 1) * pow2 bq = pow2 (bp - 1)"
      using pow2_add [of "bp - bq - 1" "bq"] by simp
    finally have "pow2 (bp - bq - 1) * of_int q \<le> of_int p"
      using P1 by simp
    then show ?thesis
      using qpos by (simp only: x pos_le_divide_eq)
  qed
  show ?thesis
  proof (cases "pow2 (bp - bq) \<le> x")
    case True
    then have "ilog2 x = bp - bq" by (simp add: ilog2_def pq bp_def bq_def)
    then show ?thesis using True up by simp
  next
    case False
    then have "ilog2 x = bp - bq - 1" by (simp add: ilog2_def pq bp_def bq_def)
    then show ?thesis using False low by simp
  qed
qed


lemma round_half_even_nonneg: "0 \<le> x \<Longrightarrow> 0 \<le> round_half_even x"
  by (auto simp: round_half_even_def Let_def)

lemma round_half_even_le:
  assumes "x \<le> of_int N"
  shows "round_half_even x \<le> N"
proof (cases "\<lfloor>x\<rfloor> = N")
  case True
  then have "of_int N \<le> x" by (metis of_int_floor_le)
  with assms have "x = of_int N" by simp
  then show ?thesis by (simp add: round_half_even_def)
next
  case False
  moreover have "\<lfloor>x\<rfloor> \<le> N" using assms by (simp add: floor_le_iff)
  ultimately have "\<lfloor>x\<rfloor> + 1 \<le> N" by simp
  then show ?thesis by (auto simp: round_half_even_def Let_def)
qed

lemma binary64_nonneg:
  assumes "0 \<le> x"
  shows "0 \<le> binary64 x"
proof -
  have "0 \<le> of_int (round_half_even (x / q)) * q" if "0 < q" for q :: rat
    using that assms by (intro mult_nonneg_nonneg) (simp_all add: round_half_even_nonneg)
  then show ?thesis
    by (simp add: binary64_def Let_def pow2_pos)
qed

lemma binary64_nonpos:
  assumes "x \<le> 0"
  shows "binary64 x \<le> 0"
proof -
  have "of_int (round_half_even (x / q)) * q \<le> 0" if "0 < q" for q :: rat
  proof -
    have "x / q \<le> of_int 0" using that assms by (simp add: divide_le_0_iff)
    then have "round_half_even (x / q) \<le> 0" by (rule round_half_even_le)
    then show ?thesis using that by (simp add: mult_le_0_iff)
  qed
  then show ?thesis
    by (simp add: binary64_def Let_def pow2_pos)
qed

lemma binary64_le_int:
  assumes "x \<le> of_int N" and "0 \<le> N" and "x < 2 ^ 53"
  shows "binary64 x \<le> of_int N"
proof (cases "0 < x")
  case False
  then have "binary64 x \<le> 0" by (intro binary64_nonpos) simp
  then show ?thesis using assms(2) by simp
next
  case True
  define e where "e = max (ilog2 \<bar>x\<bar>) (- 1022)"
  define q where "q = pow2 (e - 52)"
  define m where "m = (2::int) ^ nat (52 - e)"
  have "pow2 (ilog2 x) \<le> x" using ilog2_bounds [OF True] by simp
  also have "x < pow2 53" using assms(3) by (simp add: pow2_def)
  finally have "ilog2 x < 53" by (simp only: pow2_less_iff)
  then have e: "e \<le> 52" using True by (simp add: e_def)
  have q: "0 < q" by (simp add: q_def pow2_pos)
  have "pow2 (52 - e) * q = pow2 0"
    unfolding q_def using pow2_add [of "52 - e" "e - 52"] by simp
  moreover have "pow2 (52 - e) = of_int m"
    unfolding m_def using e by (intro pow2_nat) simp
  ultimately have mq: "of_int m * q = 1"
    by (simp add: pow2_def)
  have "x \<le> of_int N * (of_int m * q)"
    using assms(1) by (simp only: mq mult_1_right)
  then have "x / q \<le> of_int (N * m)"
    using q by (simp add: pos_divide_le_eq mult.assoc)
  then have "round_half_even (x / q) \<le> N * m"
    by (rule round_half_even_le)
  then have "(of_int (round_half_even (x / q)) :: rat) \<le> of_int (N * m)"
    by (simp only: of_int_le_iff)
  then have "of_int (round_half_even (x / q)) * q \<le> of_int (N * m) * q"
    using q by (simp only: mult_le_cancel_right_pos)
  also have "\<dots> = of_int N * (of_int m * q)"
    by (simp add: mult.assoc)
  finally have "of_int (round_half_even (x / q)) * q \<le> of_int N"
    by (simp only: mq mult_1_right)
  moreover have "binary64 x = of_int (round_half_even (x / q)) * q"
    using True by (simp add: binary64_def Let_def e_def q_def)
  ultimately show ?thesis by simp
qed

section \<open>Printing times\<close>

lemma digit_in: "d < 10 \<Longrightarrow> digit d \<in> set ''0123456789''"
  unfolding digit_def by (rule nth_mem) simp

lemma decimal_digits: "set (decimal n) \<subseteq> set ''0123456789''"
proof (induction n rule: decimal.induct)
  case (1 n)
  show ?case
  proof (cases "n < 10")
    case True
    then show ?thesis using digit_in [of n] by (subst decimal.simps) simp
  next
    case False
    have "n mod 10 < 10" by simp
    then have "digit (n mod 10) \<in> set ''0123456789''" by (rule digit_in)
    with False 1 show ?thesis by (subst decimal.simps) simp
  qed
qed

lemma decimal_no_dot: "CHR ''.'' \<notin> set (decimal n)"
  using decimal_digits [of n] by auto

lemma decimal_one: "n < 10 \<Longrightarrow> decimal n = [digit n]"
  by (subst decimal.simps) simp

lemma decimal_two:
  assumes "10 \<le> n" and "n < 100"
  shows "decimal n = [digit (n div 10), digit (n mod 10)]"
proof -
  have "n div 10 < 10" using assms(2) by arith
  then have "decimal (n div 10) = [digit (n div 10)]" by (rule decimal_one)
  then show ?thesis using assms(1) by (subst decimal.simps) simp
qed

lemma pad2_two:
  assumes "0 \<le> k" and "k < 100"
  shows "pad2 k = [digit (nat k div 10), digit (nat k mod 10)]"
proof (cases "nat k < 10")
  case True
  then have "decimal (nat k) = [digit (nat k)]" by (rule decimal_one)
  moreover have "digit 0 = CHR ''0''" by (simp add: digit_def)
  ultimately show ?thesis using assms True by (simp add: pad2_def str_int_def)
next
  case False
  then have "decimal (nat k) = [digit (nat k div 10), digit (nat k mod 10)]"
    using assms by (intro decimal_two) simp_all
  then show ?thesis using assms by (simp add: pad2_def str_int_def)
qed

lemma takeWhile_all: "\<forall>x\<in>set xs. P x \<Longrightarrow> takeWhile P xs = xs"
  by (induction xs) auto

lemma day_seconds:
  fixes n :: nat
  shows "n mod 86400 mod 60 = n mod 60"
    and "n mod 86400 div 60 mod 60 = n div 60 mod 60"
    and "n mod 86400 div 60 div 60 = n mod 86400 div 3600"
proof -
  show "n mod 86400 mod 60 = n mod 60"
    by (rule mod_mod_cancel) simp
  have "n mod (60 * 1440) = 60 * (n div 60 mod 1440) + n mod 60"
    by (rule mod_mult2_eq)
  then have "n mod (60 * 1440) div 60 = n div 60 mod 1440"
    by simp
  then have "n mod 86400 div 60 = n div 60 mod 1440"
    by simp
  then show "n mod 86400 div 60 mod 60 = n div 60 mod 60"
    by (simp add: mod_mod_cancel)
  show "n mod 86400 div 60 div 60 = n mod 86400 div 3600"
    using div_mult2_eq [of "n mod 86400" 60 60] by simp
qed

lemma str_int_nat: "str_int (int k) = decimal k"
  by (simp add: str_int_def)

lemma timedelta_str_nat:
  "timedelta_str (int n) =
     (if n div 86400 = 0 then []
      else decimal (n div 86400) @ (if n div 86400 = 1 then '' day, '' else '' days, ''))
     @ decimal (n mod 86400 div 3600) @ '':''
     @ [digit (n div 60 mod 60 div 10), digit (n div 60 mod 60 mod 10)] @ '':''
     @ [digit (n mod 60 div 10), digit (n mod 60 mod 10)]"
proof -
  have d: "int n div 86400 = int (n div 86400)" and s: "int n mod 86400 = int (n mod 86400)"
    by (simp_all add: zdiv_int zmod_int)
  have ss: "int (n mod 86400) mod 60 = int (n mod 60)"
    using zmod_int [of "n mod 86400" 60] by (simp only: day_seconds of_nat_numeral)
  have mm: "int (n mod 86400) div 60 mod 60 = int (n div 60 mod 60)"
    using zmod_int [of "n mod 86400 div 60" 60] zdiv_int [of "n mod 86400" 60]
    by (simp only: day_seconds of_nat_numeral)
  have hh: "int (n mod 86400) div 60 div 60 = int (n mod 86400 div 3600)"
    using zdiv_int [of "n mod 86400 div 60" 60] zdiv_int [of "n mod 86400" 60]
    by (simp only: day_seconds of_nat_numeral)
  have pss: "pad2 (int (n mod 60)) = [digit (n mod 60 div 10), digit (n mod 60 mod 10)]"
    using pad2_two [of "int (n mod 60)"] by simp
  have pmm: "pad2 (int (n div 60 mod 60))
               = [digit (n div 60 mod 60 div 10), digit (n div 60 mod 60 mod 10)]"
    using pad2_two [of "int (n div 60 mod 60)"] by simp
  show ?thesis
    unfolding timedelta_str_def Let_def d s ss mm hh pss pmm str_int_nat
    by simp
qed

lemma digit_not_dot: "d < 10 \<Longrightarrow> digit d \<noteq> CHR ''.''"
  using digit_in [of d] by auto

lemma time_text_format:
  assumes "0 \<le> x" and "\<not> timedelta_overflow (trunc x)"
  defines "n \<equiv> nat \<lfloor>x\<rfloor>"
  shows "time_text x = Some (
           (if n div 86400 = 0 then []
            else decimal (n div 86400) @ (if n div 86400 = 1 then '' day, '' else '' days, ''))
           @ decimal (n mod 86400 div 3600) @ '':''
           @ [digit (n div 60 mod 60 div 10), digit (n div 60 mod 60 mod 10)] @ '':''
           @ [digit (n mod 60 div 10), digit (n mod 60 mod 10)])"
proof -
  have t: "trunc x = int n"
    using assms(1) by (simp add: trunc_def n_def)
  have "\<forall>c \<in> set (timedelta_str (int n)). c \<noteq> CHR ''.''"
    unfolding timedelta_str_nat
    using decimal_no_dot [of "n div 86400"] decimal_no_dot [of "n mod 86400 div 3600"]
    by (auto simp: digit_not_dot)
  then have "takeWhile (\<lambda>c. c \<noteq> CHR ''.'') (timedelta_str (int n)) = timedelta_str (int n)"
    by (rule takeWhile_all)
  moreover have "\<not> timedelta_overflow (int n)"
    using assms(2) by (simp only: t simp_thms)
  ultimately show ?thesis
    by (simp only: time_text_def t timedelta_str_nat if_False simp_thms)
qed

lemma time_text_Some: "\<not> timedelta_overflow (trunc x) \<Longrightarrow> \<exists>text. time_text x = Some text"
  by (simp add: time_text_def)

lemma time_text_leaves:
  "time_text 125 = Some ''0:02:05''"
  "time_text 3725 = Some ''1:02:05''"
  "time_text 100 = Some ''0:01:40''"
  by code_simp+

section \<open>What the methods change\<close>

lemma display_noop: "duration s \<le> 0 \<Longrightarrow> display_progress_bar position s = Done s"
  by (simp add: display_progress_bar_def)

lemma display_fields [simp]:
  "playing (final (display_progress_bar position s)) = playing s"
  "paused (final (display_progress_bar position s)) = paused s"
  "current_volume (final (display_progress_bar position s)) = current_volume s"
  "duration (final (display_progress_bar position s)) = duration s"
  "current_track (final (display_progress_bar position s)) = current_track s"
  "pause_position (final (display_progress_bar position s)) = pause_position s"
  "time_reads (final (display_progress_bar position s)) = time_reads s"
  by (simp_all add: display_progress_bar_def Let_def emit_def split: option.splits)

lemma position_fields [simp]:
  "playing (snd (get_current_position env s)) = playing s"
  "paused (snd (get_current_position env s)) = paused s"
  "current_volume (snd (get_current_position env s)) = current_volume s"
  "duration (snd (get_current_position env s)) = duration s"
  "current_track (snd (get_current_position env s)) = current_track s"
  "pause_position (snd (get_current_position env s)) = pause_position s"
  "effects (snd (get_current_position env s)) = effects s"
  by (simp_all add: get_current_position_def time_time_def)

lemma adjust_volume_volume:
  "current_volume (final (adjust_volume env up s)) = volume_step up (current_volume s)"
  by (simp add: adjust_volume_def Let_def case_prod_beta volume_step_def emit_def)

lemma adjust_volume_fields [simp]:
  "playing (final (adjust_volume env up s)) = playing s"
  "paused (final (adjust_volume env up s)) = paused s"
  "duration (final (adjust_volume env up s)) = duration s"
  "current_track (final (adjust_volume env up s)) = current_track s"
  "pause_position (final (adjust_volume env up s)) = pause_position s"
  by (simp_all add: adjust_volume_def Let_def case_prod_beta emit_def)

lemma pause_fields [simp]:
  "playing (final (pause env s)) = playing s"
  "paused (final (pause env s)) = (if playing s then \<not> paused s else paused s)"
  "current_volume (final (pause env s)) = current_volume s"
  "duration (final (pause env s)) = duration s"
  "current_track (final (pause env s)) = current_track s"
  "pause_position (final (pause env s)) = pause_position s"
  by (simp_all add: pause_def Let_def case_prod_beta emit_def time_time_def
      get_current_position_def)

lemma stop_fields [simp]:
  "playing (stop s) = False"
  "paused (stop s) = (\<not> playing s \<and> paused s)"
  "current_volume (stop s) = current_volume s"
  "duration (stop s) = duration s"
  "current_track (stop s) = current_track s"
  "pause_position (stop s) = pause_position s"
  by (auto simp add: stop_def emit_def)

lemma play_file_flags:
  "playing (final (play_file env file_path s)) = (starts env file_path \<or> playing s)"
  "paused (final (play_file env file_path s)) = (\<not> starts env file_path \<and> paused s)"
  by (simp_all add: play_file_def starts_def Let_def case_prod_beta emit_def time_time_def
      split: metadata.splits option.splits)

lemma play_file_position [simp]:
  "pause_position s = 0 \<Longrightarrow> pause_position (final (play_file env file_path s)) = 0"
  "current_volume (final (play_file env file_path s)) = current_volume s"
  by (simp_all add: play_file_def Let_def case_prod_beta emit_def time_time_def
      split: metadata.splits option.splits)

lemma paused_playing_preserved:
  assumes "paused s \<longrightarrow> playing s"
  shows "paused (final (play_file env file_path s)) \<longrightarrow> playing (final (play_file env file_path s))"
    and "paused (final (pause env s)) \<longrightarrow> playing (final (pause env s))"
    and "paused (stop s) \<longrightarrow> playing (stop s)"
    and "paused (final (adjust_volume env up s)) \<longrightarrow> playing (final (adjust_volume env up s))"
    and "paused (final (display_progress_bar position s))
           \<longrightarrow> playing (final (display_progress_bar position s))"
    and "paused (snd (get_current_position env s)) \<longrightarrow> playing (snd (get_current_position env s))"
proof -
  from assms consider "playing s" | "\<not> playing s" "\<not> paused s"
    by blast
  then show "paused (final (play_file env file_path s))
               \<longrightarrow> playing (final (play_file env file_path s))"
    by cases (simp_all add: play_file_flags)
  from assms consider "playing s" | "\<not> playing s" "\<not> paused s"
    by blast
  then show "paused (final (pause env s)) \<longrightarrow> playing (final (pause env s))"
    by cases simp_all
  from assms consider "playing s" | "\<not> playing s" "\<not> paused s"
    by blast
  then show "paused (stop s) \<longrightarrow> playing (stop s)"
    by cases simp_all
  show "paused (final (adjust_volume env up s)) \<longrightarrow> playing (final (adjust_volume env up s))"
    using assms by (simp only: adjust_volume_fields)
  show "paused (final (display_progress_bar position s))
           \<longrightarrow> playing (final (display_progress_bar position s))"
    using assms by (simp only: display_fields)
  show "paused (snd (get_current_position env s)) \<longrightarrow> playing (snd (get_current_position env s))"
    using assms by (simp only: position_fields)
qed

lemma reachable_flags: "reachable s \<Longrightarrow> paused s \<longrightarrow> playing s"
proof (induction rule: reachable.induct)
  case init
  show ?case by (simp add: MusicPlayer_init_def)
next
  case (play_file s env file_path)
  then show ?case by (intro paused_playing_preserved)
next
  case (pause s env)
  then show ?case by (intro paused_playing_preserved)
next
  case (stop s)
  then show ?case by (intro paused_playing_preserved)
next
  case (adjust_volume s env up)
  then show ?case by (intro paused_playing_preserved)
next
  case (display s position)
  then show ?case by (intro paused_playing_preserved)
next
  case (position s env)
  then show ?case by (intro paused_playing_preserved)
qed

lemma reachable_pause_position: "reachable s \<Longrightarrow> pause_position s = 0"
  by (induction rule: reachable.induct) (simp_all add: MusicPlayer_init_def)

lemma play_file_fields:
  "duration (final (play_file env file_path s)) =
     (case probe env file_path of Unreadable \<Rightarrow> duration s | Falsy \<Rightarrow> 0 | Audio len \<Rightarrow> len)"
  "current_track (final (play_file env file_path s)) =
     (if starts env file_path then Some file_path else current_track s)"
  "start_time (final (play_file env file_path s)) =
     (if starts env file_path then clock env (time_reads s) else start_time s)"
  "total_pause_time (final (play_file env file_path s)) =
     (if starts env file_path then 0 else total_pause_time s)"
  "time_reads (final (play_file env file_path s)) =
     (if starts env file_path then Suc (time_reads s) else time_reads s)"
  by (simp_all add: play_file_def starts_def Let_def case_prod_beta emit_def time_time_def
      display_progress_bar_def split: metadata.splits option.splits)

lemma pause_times:
  "pause_start (final (pause env s)) =
     (if playing s \<and> \<not> paused s then clock env (time_reads s) else pause_start s)"
  "start_time (final (pause env s)) = start_time s"
  "total_pause_time (final (pause env s)) =
     (if playing s \<and> paused s
      then fadd (total_pause_time s) (fsub (clock env (time_reads s)) (pause_start s))
      else total_pause_time s)"
  "time_reads (final (pause env s)) =
     (if playing s \<and> \<not> paused s then Suc (time_reads s)
      else if playing s \<and> paused s then Suc (Suc (time_reads s))
      else time_reads s)"
  by (simp_all add: pause_def Let_def case_prod_beta emit_def time_time_def
      get_current_position_def display_progress_bar_def split: option.splits)

lemma position_value:
  "fst (get_current_position env s) =
     (if \<not> playing s then 0
      else if paused s then pause_position s
      else fsub (fsub (clock env (time_reads s)) (start_time s)) (total_pause_time s))"
  by (simp add: get_current_position_def time_time_def)

lemma binary64_ten: "binary64 10 = 10"
  by code_simp






section \<open>Drawing the bar\<close>

lemma frames_append: "frames (xs @ ys) = frames xs @ frames ys"
  by (induction xs rule: frames.induct) simp_all

lemma display_progress_bar_Done:
  assumes "0 < duration s" and "current_track s = Some track"
    and "time_text position = Some elapsed"
    and "time_text (duration s) = Some whole"
  shows "display_progress_bar position s =
     Done (s\<lparr>first_display := False,
        effects := effects s @
          [if first_display s then Echo_blank else Echo_repaint,
           Echo_title (basename track),
           Echo_progress
             \<lparr>percentage = trunc (fmul (min (fdiv position (duration s)) 1) 100),
              bar = replicate (nat (trunc (fmul 30 (min (fdiv position (duration s)) 1))))
                      heavy_horizontal
                    @ (if trunc (fmul 30 (min (fdiv position (duration s)) 1)) < 30
                       then heavy_left
                         # replicate
                             (nat (30 - trunc (fmul 30 (min (fdiv position (duration s)) 1)) - 1))
                             heavy_horizontal
                       else []),
              current_time = elapsed, total_time = whole,
              volume_percent = trunc (fmul (current_volume s) 100),
              pause_icon = paused s\<rparr>,
           Echo_blank]\<rparr>)"
proof -
  have d: "\<not> duration s \<le> 0" using assms(1) by simp
  show ?thesis
    using assms(2-4) d
    by (cases "first_display s") (simp_all add: display_progress_bar_def Let_def emit_def)
qed

lemma progress_range:
  assumes "0 < d" and "0 \<le> position"
  shows "0 \<le> min (fdiv position d) 1" and "min (fdiv position d) 1 \<le> 1"
    and "0 \<le> fmul 30 (min (fdiv position d) 1)"
    and "fmul 30 (min (fdiv position d) 1) \<le> 30"
proof -
  have "0 \<le> fdiv position d"
    unfolding fdiv_def using assms by (intro binary64_nonneg) simp
  then show p0: "0 \<le> min (fdiv position d) 1" by simp
  show p1: "min (fdiv position d) 1 \<le> 1" by simp
  show "0 \<le> fmul 30 (min (fdiv position d) 1)"
    unfolding fmul_def using p0 by (intro binary64_nonneg) simp
  have "30 * min (fdiv position d) 1 \<le> of_int 30" using p1 by simp
  moreover have "30 * min (fdiv position d) 1 < 2 ^ 53" using p1 by simp
  ultimately have "binary64 (30 * min (fdiv position d) 1) \<le> of_int 30"
    by (intro binary64_le_int) simp_all
  then show "fmul 30 (min (fdiv position d) 1) \<le> 30"
    by (simp add: fmul_def)
qed

lemma half_way:
  "fdiv 50 100 = 1 / 2" "fmul (1 / 2) 100 = 50" "fmul 30 (1 / 2) = 15"
  by code_simp+

lemma glyphs_differ: "heavy_left \<noteq> heavy_horizontal"
  by (simp add: heavy_left_def heavy_horizontal_def)

lemma adjust_volume_display:
  "adjust_volume env up s =
     display_progress_bar (fst (get_current_position env s))
       (snd (get_current_position env
          (s\<lparr>current_volume := volume_step up (current_volume s),
             effects := effects s @ [Mixer (Set_volume (volume_step up (current_volume s)))]\<rparr>)))"
  by (simp add: adjust_volume_def volume_step_def Let_def case_prod_beta emit_def
      get_current_position_def time_time_def)

lemma set_back_leaves:
  "binary64 (- 10) = - 10"
  "trunc (fmul 30 (min (fdiv (- 10) 100) 1)) = - 3"
  "\<not> timedelta_overflow (trunc (- 10))"
  "\<not> timedelta_overflow (trunc 100)"
  "\<not> timedelta_overflow (trunc 50)"
  "\<not> timedelta_overflow (trunc 125)"
  by code_simp+

section \<open>Volume steps\<close>

lemma tenth_nonneg: "0 \<le> tenth"
  unfolding tenth_def by (rule binary64_nonneg) simp

lemma volume_step_bounds:
  assumes "0 \<le> v" and "v \<le> 1"
  shows "0 \<le> volume_step up v \<and> volume_step up v \<le> 1"
proof -
  have "0 \<le> fadd v tenth"
    unfolding fadd_def using assms(1) tenth_nonneg by (intro binary64_nonneg) simp
  moreover have "fsub v tenth \<le> 1"
  proof -
    have "v - tenth \<le> of_int 1" using assms(2) tenth_nonneg by simp
    moreover have "v - tenth < 2 ^ 53" using assms(2) tenth_nonneg by simp
    ultimately have "binary64 (v - tenth) \<le> of_int 1" by (intro binary64_le_int) simp_all
    then show ?thesis by (simp add: fsub_def)
  qed
  ultimately show ?thesis
    using assms by (simp add: volume_step_def)
qed

lemma adjust_volumes_bounds:
  "0 \<le> current_volume s \<Longrightarrow> current_volume s \<le> 1 \<Longrightarrow>
   0 \<le> current_volume (final (adjust_volumes env ups s))
   \<and> current_volume (final (adjust_volumes env ups s)) \<le> 1"
proof (induction ups arbitrary: s)
  case Nil
  then show ?case by simp
next
  case (Cons up ups)
  have b: "0 \<le> current_volume (final (adjust_volume env up s))
           \<and> current_volume (final (adjust_volume env up s)) \<le> 1"
    using Cons.prems by (simp only: adjust_volume_volume volume_step_bounds)
  show ?case
  proof (cases "adjust_volume env up s")
    case (Done s')
    then have "final (adjust_volume env up s) = s'" by simp
    with b Cons.IH [of s'] Done show ?thesis by simp
  next
    case (Raised e s')
    then have "final (adjust_volume env up s) = s'" by simp
    with b Raised show ?thesis by simp
  qed
qed

lemma adjust_volumes_Done:
  "adjust_volumes env ups s = Done s' \<Longrightarrow>
   current_volume s' = foldl (\<lambda>v up. volume_step up v) (current_volume s) ups"
proof (induction ups arbitrary: s)
  case Nil
  then show ?case by simp
next
  case (Cons up ups)
  then obtain s1 where s1: "adjust_volume env up s = Done s1"
    and rest: "adjust_volumes env ups s1 = Done s'"
    by (auto split: outcome.splits)
  from s1 have "final (adjust_volume env up s) = s1" by simp
  then have "current_volume s1 = volume_step up (current_volume s)"
    using adjust_volume_volume [of env up s] by simp
  with Cons.IH [OF rest] show ?case by simp
qed

lemma adjust_volume_quiet:
  "duration s \<le> 0 \<Longrightarrow> adjust_volume env up s = Done (final (adjust_volume env up s))"
  by (simp add: adjust_volume_def Let_def case_prod_beta emit_def display_noop)

lemma adjust_volumes_quiet:
  "duration s \<le> 0 \<Longrightarrow> adjust_volumes env ups s = Done (final (adjust_volumes env ups s))"
proof (induction ups arbitrary: s)
  case Nil
  then show ?case by simp
next
  case (Cons up ups)
  obtain s1 where s1: "adjust_volume env up s = Done s1"
    using adjust_volume_quiet [OF Cons.prems] by blast
  then have "final (adjust_volume env up s) = s1" by simp
  moreover have "duration (final (adjust_volume env up s)) \<le> 0"
    using Cons.prems by simp
  ultimately have "duration s1 \<le> 0" by simp
  from Cons.IH [OF this] s1 show ?case by simp
qed

lemma ten_ups: "foldl (\<lambda>v up. volume_step up v) (1 / 2) (replicate 10 True) = 1"
  by code_simp

lemma down_to_zero_up_to_fifth:
  "foldl (\<lambda>v up. volume_step up v) (1 / 2)
     [False, False, False, False, False, False, True, True] = binary64 (2 / 10)"
  "foldl (\<lambda>v up. volume_step up v) (1 / 2)
     [False, False, False, False, False, False, True, True, True, False] =  binary64 (2 / 10) + 1 / 2 ^ 55"
  by code_simp+

lemma round_trips:
  "volume_step False (volume_step True (binary64 (1 / 10))) = binary64 (1 / 10)"
  "volume_step False (volume_step True (binary64 (2 / 10))) = binary64 (2 / 10) + 1 / 2 ^ 55"
  "volume_step False (volume_step True (binary64 (3 / 10))) = binary64 (3 / 10) + 1 / 2 ^ 54"
  "volume_step False (volume_step True (binary64 (4 / 10))) = binary64 (4 / 10)"
  "volume_step False (volume_step True (binary64 (5 / 10))) = binary64 (5 / 10)"
  "volume_step False (volume_step True (binary64 (6 / 10))) = binary64 (6 / 10)"
  "volume_step False (volume_step True (binary64 (7 / 10))) = binary64 (7 / 10)"
  "volume_step False (volume_step True (binary64 (8 / 10))) = binary64 (8 / 10)"
  "volume_step False (volume_step True (binary64 (9 / 10))) = binary64 (9 / 10)"
  by code_simp+

lemma adjust_volumes_duration:
  "duration (final (adjust_volumes env ups s)) = duration s"
proof (induction ups arbitrary: s)
  case Nil
  show ?case by simp
next
  case (Cons up ups)
  have d: "duration (final (adjust_volume env up s)) = duration s" by simp
  show ?case
  proof (cases "adjust_volume env up s")
    case (Done s')
    from d have "duration s' = duration s" by (simp only: Done final.simps)
    with Cons.IH [of s'] Done show ?thesis by simp
  next
    case (Raised e s')
    from d have "duration s' = duration s" by (simp only: Raised final.simps)
    with Raised show ?thesis by simp
  qed
qed

section \<open>The claims\<close>

text \<open>
  C1, as stated, fails for a negative position: the code bounds the progress by 1 from
  above and by nothing from below. When the clock is set back by ten seconds after a
  track of 100 seconds has started, the next \<open>adjust_volume\<close> computes the position -10 and
  draws a bar of 33 cells: no filled cell, the head, and 32 more.
\<close>

theorem progress_bar_negative_position_counterexample:
  "0 < duration (final (play_file set_back ''song.mp3'' MusicPlayer_init))
   \<and> fst (get_current_position set_back
          (final (play_file set_back ''song.mp3'' MusicPlayer_init))) = - 10
   \<and> length (bar (last (frames (effects (final (adjust_volume set_back True
          (final (play_file set_back ''song.mp3'' MusicPlayer_init)))))))) = 33"
proof -
  define S where "S = final (play_file set_back ''song.mp3'' MusicPlayer_init)"
  have st: "starts set_back ''song.mp3''"
    by (simp add: starts_def set_back_def studio_def)
  have c: "clock set_back 0 = 100" "clock set_back (Suc 0) = 90"
    "probe set_back ''song.mp3'' = Audio 100"
    by (simp_all add: set_back_def studio_def)
  have i: "time_reads MusicPlayer_init = 0"
    by (simp add: MusicPlayer_init_def)
  have f: "duration S = 100" "current_track S = Some ''song.mp3''" "playing S" "\<not> paused S"
    "start_time S = 100" "total_pause_time S = 0" "time_reads S = Suc 0"
    by (simp_all add: S_def play_file_fields play_file_flags st c i)
  have pos: "fst (get_current_position set_back S) = - 10"
    by (simp add: position_value f c fsub_def set_back_leaves)
  define T where "T = snd (get_current_position set_back
     (S\<lparr>current_volume := volume_step True (current_volume S),
        effects := effects S @ [Mixer (Set_volume (volume_step True (current_volume S)))]\<rparr>))"
  have t: "duration T = 100" "current_track T = Some ''song.mp3''"
    by (simp_all add: T_def f)
  have d: "0 < duration T" by (simp add: t)
  obtain elapsed where e: "time_text (- 10) = Some elapsed"
    using time_text_Some [OF set_back_leaves(3)] by blast
  have o: "time_text (duration T) = Some ''0:01:40''"
    by (simp only: t time_text_leaves)
  have "adjust_volume set_back True S = display_progress_bar (- 10) T"
    by (simp only: adjust_volume_display pos T_def)
  then have "length (bar (last (frames (effects (final (adjust_volume set_back True S)))))) = 33"
    by (simp add: display_progress_bar_Done [OF d t(2) e o] frames_append t set_back_leaves)
  with pos f(1) show ?thesis
    by (simp add: S_def)
qed

text \<open>
  C1, amended. For a positive duration, a loaded track and a position that is not
  negative (both times within the range of \<open>timedelta\<close>), \<open>display_progress_bar\<close> writes
  one progress line whose bar has exactly 30 cells: \<open>filled\<close> cells U+2501, where \<open>filled\<close> is
  the floor of 30 times the progress clamped to [0, 1], quotient and product computed in
  binary64; then, if \<open>filled < 30\<close>, one head cell U+257A, which differs from U+2501, and
  the remaining cells, which the code draws with U+2501 again. For duration 100 and
  position 50 the line shows 50 percent, 15 cells, the head and 14 cells.
\<close>

theorem progress_bar_cells:
  assumes "0 < duration s" and "0 \<le> position" and "current_track s = Some track"
    and "\<not> timedelta_overflow (trunc position)"
    and "\<not> timedelta_overflow (trunc (duration s))"
  shows "\<exists>s' line filled.
           display_progress_bar position s = Done s'
           \<and> frames (effects s') = frames (effects s) @ [line]
           \<and> filled = \<lfloor>fmul 30 (max 0 (min (fdiv position (duration s)) 1))\<rfloor>
           \<and> 0 \<le> filled \<and> filled \<le> 30
           \<and> length (bar line) = 30
           \<and> bar line = replicate (nat filled) heavy_horizontal
                 @ (if filled < 30
                    then heavy_left # replicate (nat (29 - filled)) heavy_horizontal
                    else [])
           \<and> heavy_left \<noteq> heavy_horizontal
           \<and> (duration s = 100 \<and> position = 50 \<longrightarrow>
                percentage line = 50 \<and> filled = 15
                \<and> bar line = replicate 15 heavy_horizontal
                      @ heavy_left # replicate 14 heavy_horizontal)"
proof -
  define progress where "progress = min (fdiv position (duration s)) 1"
  define filled where "filled = \<lfloor>fmul 30 progress\<rfloor>"
  define cells where "cells = replicate (nat filled) heavy_horizontal
     @ (if filled < 30 then heavy_left # replicate (nat (29 - filled)) heavy_horizontal else [])"
  obtain elapsed whole where e: "time_text position = Some elapsed"
    and o: "time_text (duration s) = Some whole"
    using time_text_Some [OF assms(4)] time_text_Some [OF assms(5)] by blast
  define line where "line =
     \<lparr>percentage = trunc (fmul progress 100), bar = cells,
      current_time = elapsed, total_time = whole,
      volume_percent = trunc (fmul (current_volume s) 100), pause_icon = paused s\<rparr>"
  define s' where "s' = s\<lparr>first_display := False,
     effects := effects s @ [if first_display s then Echo_blank else Echo_repaint,
       Echo_title (basename track), Echo_progress line, Echo_blank]\<rparr>"
  note r = progress_range [OF assms(1,2)]
  have p: "max 0 progress = progress"
    using r(1) by (simp add: progress_def)
  have x: "0 \<le> fmul 30 progress" "fmul 30 progress \<le> 30"
    using r(3,4) by (simp_all add: progress_def)
  have t: "trunc (fmul 30 progress) = filled"
    using x(1) by (simp add: trunc_def filled_def)
  have f0: "0 \<le> filled"
    using x(1) by (simp add: filled_def)
  have "\<lfloor>fmul 30 progress\<rfloor> \<le> \<lfloor>30 :: rat\<rfloor>"
    using x(2) by (rule floor_mono)
  then have f30: "filled \<le> 30"
    by (simp add: filled_def)
  have n: "nat (30 - filled - 1) = nat (29 - filled)"
    by simp
  have run: "display_progress_bar position s = Done s'"
    unfolding s'_def line_def cells_def
    using display_progress_bar_Done [OF assms(1,3) e o]
    by (simp only: t n flip: progress_def)
  have fr: "frames (effects s') = frames (effects s) @ [line]"
    by (simp add: s'_def frames_append)
  have "nat filled + nat (29 - filled) = 29" if "filled < 30"
    using that f0 by arith
  moreover have "nat filled = 30" if "\<not> filled < 30"
    using that f30 by arith
  ultimately have len: "length cells = 30"
    by (simp add: cells_def)
  have inst: "percentage line = 50 \<and> filled = 15
      \<and> cells = replicate 15 heavy_horizontal @ heavy_left # replicate 14 heavy_horizontal"
    if "duration s = 100 \<and> position = 50"
  proof -
    have ph: "progress = 1 / 2"
      using that by (simp add: progress_def half_way)
    have "fmul 30 progress = 15" "fmul progress 100 = 50"
      unfolding ph by (rule half_way)+
    then have "filled = 15" "percentage line = 50"
      by (simp_all add: filled_def line_def trunc_def)
    then show ?thesis
      by (simp add: cells_def)
  qed
  have b: "bar line = cells" by (simp add: line_def)
  have fl: "filled = \<lfloor>fmul 30 (max 0 (min (fdiv position (duration s)) 1))\<rfloor>"
    using p by (simp add: filled_def progress_def)
  have len': "length (bar line) = 30"
    using len by (simp only: b)
  have bl: "bar line = replicate (nat filled) heavy_horizontal
     @ (if filled < 30 then heavy_left # replicate (nat (29 - filled)) heavy_horizontal else [])"
    by (simp only: b cells_def)
  have inst': "duration s = 100 \<and> position = 50 \<longrightarrow>
      percentage line = 50 \<and> filled = 15
      \<and> bar line = replicate 15 heavy_horizontal @ heavy_left # replicate 14 heavy_horizontal"
    using inst by (simp only: b) blast
  from run fr fl f0 f30 len' bl glyphs_differ inst' show ?thesis
    by blast
qed

theorem progress_bar_cells_witness:
  "0 < duration (final (play_file studio ''song.mp3'' MusicPlayer_init))
   \<and> (0::rat) \<le> 50
   \<and> current_track (final (play_file studio ''song.mp3'' MusicPlayer_init)) = Some ''song.mp3''
   \<and> duration (final (play_file studio ''song.mp3'' MusicPlayer_init)) = 100
   \<and> (\<exists>s' line.
          display_progress_bar 50 (final (play_file studio ''song.mp3'' MusicPlayer_init)) = Done s'
          \<and> frames (effects s')
              = frames (effects (final (play_file studio ''song.mp3'' MusicPlayer_init))) @ [line]
          \<and> length (bar line) = 30 \<and> percentage line = 50
          \<and> bar line = replicate 15 heavy_horizontal @ heavy_left # replicate 14 heavy_horizontal)"
proof -
  define S where "S = final (play_file studio ''song.mp3'' MusicPlayer_init)"
  have st: "starts studio ''song.mp3''" and pr: "probe studio ''song.mp3'' = Audio 100"
    by (simp_all add: starts_def studio_def)
  have f: "duration S = 100" "current_track S = Some ''song.mp3''"
    by (simp_all add: S_def play_file_fields st pr)
  have d: "0 < duration S" by (simp add: f)
  have p: "(0::rat) \<le> 50" by simp
  have o: "\<not> timedelta_overflow (trunc 50)" "\<not> timedelta_overflow (trunc (duration S))"
    by (simp_all add: f set_back_leaves)
  from progress_bar_cells [OF d p f(2) o] f(1)
  have "\<exists>s' line.
          display_progress_bar 50 S = Done s'
          \<and> frames (effects s') = frames (effects S) @ [line]
          \<and> length (bar line) = 30 \<and> percentage line = 50
          \<and> bar line = replicate 15 heavy_horizontal @ heavy_left # replicate 14 heavy_horizontal"
    by blast
  with d p f show ?thesis
    unfolding S_def by blast
qed

text \<open>
  C2, as stated, fails under an hour: at 125 seconds into a track the progress line shows
  the elapsed time as \<open>0:02:05\<close>, with the hour, not as \<open>2:05\<close>.
\<close>

theorem rendered_time_under_an_hour_counterexample:
  "current_time (last (frames (effects (final (display_progress_bar 125
      (final (play_file studio ''song.mp3'' MusicPlayer_init))))))) = ''0:02:05''
   \<and> current_time (last (frames (effects (final (display_progress_bar 125
      (final (play_file studio ''song.mp3'' MusicPlayer_init))))))) \<noteq> ''2:05''"
proof -
  define S where "S = final (play_file studio ''song.mp3'' MusicPlayer_init)"
  have st: "starts studio ''song.mp3''" and pr: "probe studio ''song.mp3'' = Audio 100"
    by (simp_all add: starts_def studio_def)
  have f: "duration S = 100" "current_track S = Some ''song.mp3''"
    by (simp_all add: S_def play_file_fields st pr)
  have d: "0 < duration S" by (simp add: f)
  have o: "time_text (duration S) = Some ''0:01:40''"
    by (simp only: f time_text_leaves)
  have "current_time (last (frames (effects (final (display_progress_bar 125 S)))))
          = ''0:02:05''"
    by (simp add: display_progress_bar_Done [OF d f(2) time_text_leaves(1) o] frames_append)
  then show ?thesis
    unfolding S_def by simp
qed

text \<open>
  C2, amended. For a positive duration, a loaded track and a position that is not
  negative, both within the range of \<open>timedelta\<close> (less than a thousand million days),
  the progress line shows the elapsed and the total time from their whole seconds, rounded
  down: hours without padding, then minutes and seconds with two digits each, always in
  the form \<open>H:MM:SS\<close>, also under an hour; from 24 hours on the days come first, as
  \<open>1 day, \<close> or \<open>N days, \<close>, and the hours count within the day. The position 125
  shows as \<open>0:02:05\<close> and the position 3725 as \<open>1:02:05\<close>.
\<close>

theorem rendered_times_hours_minutes_seconds:
  assumes "0 < duration s" and "0 \<le> position" and "current_track s = Some track"
    and "\<not> timedelta_overflow (trunc position)"
    and "\<not> timedelta_overflow (trunc (duration s))"
  shows "\<exists>s' line.
           display_progress_bar position s = Done s'
           \<and> frames (effects s') = frames (effects s) @ [line]
           \<and> current_time line =
               (if nat \<lfloor>position\<rfloor> div 86400 = 0 then []
                else decimal (nat \<lfloor>position\<rfloor> div 86400)
                     @ (if nat \<lfloor>position\<rfloor> div 86400 = 1 then '' day, '' else '' days, ''))
               @ decimal (nat \<lfloor>position\<rfloor> mod 86400 div 3600) @ '':''
               @ [digit (nat \<lfloor>position\<rfloor> div 60 mod 60 div 10),
                  digit (nat \<lfloor>position\<rfloor> div 60 mod 60 mod 10)] @ '':''
               @ [digit (nat \<lfloor>position\<rfloor> mod 60 div 10),
                  digit (nat \<lfloor>position\<rfloor> mod 60 mod 10)]
           \<and> total_time line =
               (if nat \<lfloor>duration s\<rfloor> div 86400 = 0 then []
                else decimal (nat \<lfloor>duration s\<rfloor> div 86400)
                     @ (if nat \<lfloor>duration s\<rfloor> div 86400 = 1 then '' day, ''
                        else '' days, ''))
               @ decimal (nat \<lfloor>duration s\<rfloor> mod 86400 div 3600) @ '':''
               @ [digit (nat \<lfloor>duration s\<rfloor> div 60 mod 60 div 10),
                  digit (nat \<lfloor>duration s\<rfloor> div 60 mod 60 mod 10)] @ '':''
               @ [digit (nat \<lfloor>duration s\<rfloor> mod 60 div 10),
                  digit (nat \<lfloor>duration s\<rfloor> mod 60 mod 10)]
           \<and> (position = 125 \<longrightarrow> current_time line = ''0:02:05'')
           \<and> (position = 3725 \<longrightarrow> current_time line = ''1:02:05'')"
proof -
  define elapsed where "elapsed =
     (if nat \<lfloor>position\<rfloor> div 86400 = 0 then []
      else decimal (nat \<lfloor>position\<rfloor> div 86400)
           @ (if nat \<lfloor>position\<rfloor> div 86400 = 1 then '' day, '' else '' days, ''))
     @ decimal (nat \<lfloor>position\<rfloor> mod 86400 div 3600) @ '':''
     @ [digit (nat \<lfloor>position\<rfloor> div 60 mod 60 div 10),
        digit (nat \<lfloor>position\<rfloor> div 60 mod 60 mod 10)] @ '':''
     @ [digit (nat \<lfloor>position\<rfloor> mod 60 div 10), digit (nat \<lfloor>position\<rfloor> mod 60 mod 10)]"
  define whole where "whole =
     (if nat \<lfloor>duration s\<rfloor> div 86400 = 0 then []
      else decimal (nat \<lfloor>duration s\<rfloor> div 86400)
           @ (if nat \<lfloor>duration s\<rfloor> div 86400 = 1 then '' day, '' else '' days, ''))
     @ decimal (nat \<lfloor>duration s\<rfloor> mod 86400 div 3600) @ '':''
     @ [digit (nat \<lfloor>duration s\<rfloor> div 60 mod 60 div 10),
        digit (nat \<lfloor>duration s\<rfloor> div 60 mod 60 mod 10)] @ '':''
     @ [digit (nat \<lfloor>duration s\<rfloor> mod 60 div 10),
        digit (nat \<lfloor>duration s\<rfloor> mod 60 mod 10)]"
  have e: "time_text position = Some elapsed"
    unfolding elapsed_def using assms(2,4) by (rule time_text_format)
  have "0 \<le> duration s" using assms(1) by simp
  then have o: "time_text (duration s) = Some whole"
    unfolding whole_def using assms(5) by (rule time_text_format)
  define line where "line =
     \<lparr>percentage = trunc (fmul (min (fdiv position (duration s)) 1) 100),
      bar = replicate (nat (trunc (fmul 30 (min (fdiv position (duration s)) 1))))
              heavy_horizontal
            @ (if trunc (fmul 30 (min (fdiv position (duration s)) 1)) < 30
               then heavy_left
                 # replicate
                     (nat (30 - trunc (fmul 30 (min (fdiv position (duration s)) 1)) - 1))
                     heavy_horizontal
               else []),
      current_time = elapsed, total_time = whole,
      volume_percent = trunc (fmul (current_volume s) 100),
      pause_icon = paused s\<rparr>"
  define s' where "s' = s\<lparr>first_display := False,
     effects := effects s @ [if first_display s then Echo_blank else Echo_repaint,
       Echo_title (basename track), Echo_progress line, Echo_blank]\<rparr>"
  have run: "display_progress_bar position s = Done s'"
    unfolding s'_def line_def by (rule display_progress_bar_Done [OF assms(1,3) e o])
  have fr: "frames (effects s') = frames (effects s) @ [line]"
    by (simp add: s'_def frames_append)
  have ct: "current_time line = elapsed" and tt: "total_time line = whole"
    by (simp_all add: line_def)
  have a: "current_time line = ''0:02:05''" if "position = 125"
    using e time_text_leaves(1) by (simp only: that ct option.inject)
  have b: "current_time line = ''1:02:05''" if "position = 3725"
    using e time_text_leaves(2) by (simp only: that ct option.inject)
  from run fr ct tt a b show ?thesis
    unfolding elapsed_def whole_def by blast
qed

theorem rendered_times_hours_minutes_seconds_witness:
  "0 < duration (final (play_file studio ''song.mp3'' MusicPlayer_init))
   \<and> (0::rat) \<le> 125
   \<and> current_track (final (play_file studio ''song.mp3'' MusicPlayer_init)) = Some ''song.mp3''
   \<and> \<not> timedelta_overflow (trunc 125)
   \<and> \<not> timedelta_overflow
         (trunc (duration (final (play_file studio ''song.mp3'' MusicPlayer_init))))
   \<and> (\<exists>s' line.
          display_progress_bar 125 (final (play_file studio ''song.mp3'' MusicPlayer_init))
            = Done s'
          \<and> frames (effects s')
              = frames (effects (final (play_file studio ''song.mp3'' MusicPlayer_init))) @ [line]
          \<and> current_time line = ''0:02:05'')"
proof -
  define S where "S = final (play_file studio ''song.mp3'' MusicPlayer_init)"
  have st: "starts studio ''song.mp3''" and pr: "probe studio ''song.mp3'' = Audio 100"
    by (simp_all add: starts_def studio_def)
  have f: "duration S = 100" "current_track S = Some ''song.mp3''"
    by (simp_all add: S_def play_file_fields st pr)
  have d: "0 < duration S" by (simp add: f)
  have p: "(0::rat) \<le> 125" by simp
  have o: "\<not> timedelta_overflow (trunc 125)" "\<not> timedelta_overflow (trunc (duration S))"
    by (simp_all add: f set_back_leaves)
  from rendered_times_hours_minutes_seconds [OF d p f(2) o]
  have "\<exists>s' line. display_progress_bar 125 S = Done s'
          \<and> frames (effects s') = frames (effects S) @ [line]
          \<and> current_time line = ''0:02:05''"
    by blast
  with d p f(2) o show ?thesis
    unfolding S_def by blast
qed

text \<open>
  C10. A newly constructed player has volume exactly 0.5, which it has also passed to the
  mixer; it is not playing and not paused, its duration is 0, it has no current track, and
  its position is 0.
\<close>

theorem new_player_state:
  "current_volume MusicPlayer_init = 1 / 2
   \<and> effects MusicPlayer_init = [Mixer Mixer_init, Mixer (Set_volume (1 / 2))]
   \<and> \<not> playing MusicPlayer_init \<and> \<not> paused MusicPlayer_init
   \<and> duration MusicPlayer_init = 0 \<and> current_track MusicPlayer_init = None
   \<and> get_current_position env MusicPlayer_init = (0, MusicPlayer_init)"
  by (simp add: MusicPlayer_init_def get_current_position_def)

text \<open>
  C9. In every reachable session the paused flag implies the playing flag, and \<open>stop\<close>
  leaves both flags cleared. The rule induction goes through every method: construction,
  \<open>play_file\<close>, \<open>pause\<close>, \<open>stop\<close>, \<open>adjust_volume\<close>, and the two queries.
\<close>

theorem paused_implies_playing:
  assumes "reachable s"
  shows "(paused s \<longrightarrow> playing s) \<and> \<not> playing (stop s) \<and> \<not> paused (stop s)"
proof -
  have "paused s \<longrightarrow> playing s"
    using assms by (rule reachable_flags)
  then show ?thesis by auto
qed

theorem paused_implies_playing_witness:
  "reachable (final (pause studio (final (play_file studio ''song.mp3'' MusicPlayer_init))))
   \<and> paused (final (pause studio (final (play_file studio ''song.mp3'' MusicPlayer_init))))
   \<and> playing (final (pause studio (final (play_file studio ''song.mp3'' MusicPlayer_init))))
   \<and> \<not> playing (stop (final (pause studio (final (play_file studio ''song.mp3'' MusicPlayer_init)))))
   \<and> \<not> paused (stop (final (pause studio (final (play_file studio ''song.mp3'' MusicPlayer_init)))))"
proof -
  have r: "reachable (final (pause studio (final (play_file studio ''song.mp3'' MusicPlayer_init))))"
    by (intro reachable.pause reachable.play_file reachable.init)
  have "starts studio ''song.mp3''"
    by (simp add: starts_def studio_def)
  then have p: "paused (final (pause studio (final (play_file studio ''song.mp3'' MusicPlayer_init))))"
    by (simp add: play_file_flags)
  from paused_implies_playing [OF r] r p show ?thesis
    by blast
qed

text \<open>
  C4. While paused, \<open>get_current_position\<close> returns \<open>pause_position\<close>, which should be the
  position at the moment of pausing. Here a track starts at clock 100 and is paused at
  clock 110, ten seconds in: \<open>pause\<close> sets the paused flag before it asks for the position,
  so the query answers with the stale field, and the paused position is 0, not 10.
\<close>

theorem pause_position_not_captured:
  "fst (get_current_position studio (final (play_file studio ''song.mp3'' MusicPlayer_init))) = 10
   \<and> paused (final (pause studio (final (play_file studio ''song.mp3'' MusicPlayer_init))))
   \<and> pause_start (final (pause studio (final (play_file studio ''song.mp3'' MusicPlayer_init)))) = 110
   \<and> fst (get_current_position studio
          (final (pause studio (final (play_file studio ''song.mp3'' MusicPlayer_init))))) = 0"
proof -
  have s: "starts studio ''song.mp3''"
    by (simp add: starts_def studio_def)
  have c: "clock studio 0 = 100" "clock studio (Suc 0) = 110"
    by (simp_all add: studio_def)
  have i: "time_reads MusicPlayer_init = 0" "\<not> playing MusicPlayer_init"
    "\<not> paused MusicPlayer_init" "pause_position MusicPlayer_init = 0"
    by (simp_all add: MusicPlayer_init_def)
  show ?thesis
    by (simp add: position_value play_file_flags play_file_fields pause_times s c i fsub_def
        binary64_ten)
qed









text \<open>
  C5. Starting from a volume between 0 and 1, any sequence of \<open>adjust_volume\<close> calls, up
  or down, leaves the volume between 0 and 1 (also in the session in which an
  exception ends the sequence). Ten calls upwards from 0.5 give exactly 1: they all
  return when no bar is drawn, as for a new player, and whenever they all return.
\<close>

theorem volume_stays_in_range:
  "(0 \<le> current_volume s \<and> current_volume s \<le> 1 \<longrightarrow>
      0 \<le> current_volume (final (adjust_volumes env ups s))
      \<and> current_volume (final (adjust_volumes env ups s)) \<le> 1)
   \<and> (current_volume t = 1 / 2 \<and> duration t \<le> 0 \<longrightarrow>
        (\<exists>t'. adjust_volumes env (replicate 10 True) t = Done t' \<and> current_volume t' = 1))
   \<and> (current_volume t = 1 / 2 \<and> adjust_volumes env (replicate 10 True) t = Done t' \<longrightarrow>
        current_volume t' = 1)"
proof (intro conjI impI)
  assume "0 \<le> current_volume s \<and> current_volume s \<le> 1"
  then have "0 \<le> current_volume (final (adjust_volumes env ups s))
             \<and> current_volume (final (adjust_volumes env ups s)) \<le> 1"
    by (intro adjust_volumes_bounds) simp_all
  then show "0 \<le> current_volume (final (adjust_volumes env ups s))"
    and "current_volume (final (adjust_volumes env ups s)) \<le> 1"
    by simp_all
next
  assume a: "current_volume t = 1 / 2 \<and> adjust_volumes env (replicate 10 True) t = Done t'"
  then show "current_volume t' = 1"
    using adjust_volumes_Done [of env "replicate 10 True" t t'] by (simp only: ten_ups)
next
  assume a: "current_volume t = 1 / 2 \<and> duration t \<le> 0"
  then have d: "adjust_volumes env (replicate 10 True) t
                  = Done (final (adjust_volumes env (replicate 10 True) t))"
    by (intro adjust_volumes_quiet) simp
  from adjust_volumes_Done [OF this] a
  have "current_volume (final (adjust_volumes env (replicate 10 True) t)) = 1"
    by (simp only: ten_ups)
  with d show "\<exists>t'. adjust_volumes env (replicate 10 True) t = Done t' \<and> current_volume t' = 1"
    by blast
qed

theorem volume_stays_in_range_witness:
  "0 \<le> current_volume MusicPlayer_init \<and> current_volume MusicPlayer_init \<le> 1
   \<and> 0 \<le> current_volume (final (adjust_volumes studio [True, False, False] MusicPlayer_init))
   \<and> current_volume (final (adjust_volumes studio [True, False, False] MusicPlayer_init)) \<le> 1
   \<and> current_volume MusicPlayer_init = 1 / 2 \<and> duration MusicPlayer_init \<le> 0
   \<and> (\<exists>t'. adjust_volumes studio (replicate 10 True) MusicPlayer_init = Done t'
          \<and> current_volume t' = 1)"
proof -
  have i: "current_volume MusicPlayer_init = 1 / 2" "duration MusicPlayer_init \<le> 0"
    by (simp_all add: MusicPlayer_init_def)
  have b: "0 \<le> current_volume MusicPlayer_init \<and> current_volume MusicPlayer_init \<le> 1"
    by (simp add: i)
  note t = volume_stays_in_range [of MusicPlayer_init studio "[True, False, False]"
      MusicPlayer_init MusicPlayer_init]
  from t [THEN conjunct1, THEN mp, OF b] t [THEN conjunct2, THEN conjunct1, THEN mp, OF conjI [OF i]]
    b i
  show ?thesis by (intro conjI) (erule conjunct1 conjunct2 | assumption)+
qed

text \<open>
  C6, as stated, fails in binary64 arithmetic. A new player reaches the volume 0.2, the
  float nearest to 2/10, by six steps down and two steps up; one more step up and one
  step down give 0.20000000000000004, not 0.2.
\<close>

theorem up_then_down_counterexample:
  "current_volume (final (adjust_volumes studio
      [False, False, False, False, False, False, True, True] MusicPlayer_init)) = binary64 (2 / 10)
   \<and> 0 < binary64 (2 / 10) \<and> binary64 (2 / 10) < 1
   \<and> current_volume (final (adjust_volumes studio
      [False, False, False, False, False, False, True, True, True, False] MusicPlayer_init))
     \<noteq> binary64 (2 / 10)"
proof -
  have i: "current_volume MusicPlayer_init = 1 / 2" "duration MusicPlayer_init \<le> 0"
    by (simp_all add: MusicPlayer_init_def)
  have v: "current_volume (final (adjust_volumes studio ups MusicPlayer_init))
             = foldl (\<lambda>v up. volume_step up v) (1 / 2) ups" for ups
    using adjust_volumes_Done [OF adjust_volumes_quiet [OF i(2)], of studio ups] by (simp only: i)
  have "0 < binary64 (2 / 10)" "binary64 (2 / 10) < 1"
    by code_simp+
  then show ?thesis
    by (simp only: v down_to_zero_up_to_fifth) simp
qed

text \<open>
  C6, amended. For the floats 0.1, 0.2, ..., 0.9, a step up followed by a step down
  returns exactly to the volume, except at 0.2 and at 0.3, where the result is the next
  float above: \<open>0.2 + 1 / 2 ^ 55\<close> and \<open>0.3 + 1 / 2 ^ 54\<close>.
\<close>

theorem up_then_down_rounding:
  assumes "v \<in> {binary64 (1 / 10), binary64 (2 / 10), binary64 (3 / 10), binary64 (4 / 10),
                 binary64 (5 / 10), binary64 (6 / 10), binary64 (7 / 10), binary64 (8 / 10),
                 binary64 (9 / 10)}"
    and "current_volume s = v"
    and "adjust_volumes env [True, False] s = Done s'"
  shows "current_volume s' =
           (if v = binary64 (2 / 10) then v + 1 / 2 ^ 55
            else if v = binary64 (3 / 10) then v + 1 / 2 ^ 54
            else v)"
proof -
  have d: "binary64 (1 / 10) \<noteq> binary64 (2 / 10)" "binary64 (1 / 10) \<noteq> binary64 (3 / 10)"
    "binary64 (3 / 10) \<noteq> binary64 (2 / 10)"
    "binary64 (4 / 10) \<noteq> binary64 (2 / 10)" "binary64 (4 / 10) \<noteq> binary64 (3 / 10)"
    "binary64 (5 / 10) \<noteq> binary64 (2 / 10)" "binary64 (5 / 10) \<noteq> binary64 (3 / 10)"
    "binary64 (6 / 10) \<noteq> binary64 (2 / 10)" "binary64 (6 / 10) \<noteq> binary64 (3 / 10)"
    "binary64 (7 / 10) \<noteq> binary64 (2 / 10)" "binary64 (7 / 10) \<noteq> binary64 (3 / 10)"
    "binary64 (8 / 10) \<noteq> binary64 (2 / 10)" "binary64 (8 / 10) \<noteq> binary64 (3 / 10)"
    "binary64 (9 / 10) \<noteq> binary64 (2 / 10)" "binary64 (9 / 10) \<noteq> binary64 (3 / 10)"
    by code_simp+
  have "current_volume s' = volume_step False (volume_step True v)"
    using adjust_volumes_Done [OF assms(3)] assms(2) by simp
  then show ?thesis
    using assms(1) by (auto simp only: round_trips d if_True if_False simp_thms)
qed

theorem up_then_down_rounding_witness:
  "binary64 (2 / 10) \<in> {binary64 (1 / 10), binary64 (2 / 10), binary64 (3 / 10),
       binary64 (4 / 10), binary64 (5 / 10), binary64 (6 / 10), binary64 (7 / 10),
       binary64 (8 / 10), binary64 (9 / 10)}
   \<and> current_volume (final (adjust_volumes studio
         [False, False, False, False, False, False, True, True] MusicPlayer_init))
       = binary64 (2 / 10)
   \<and> adjust_volumes studio [True, False] (final (adjust_volumes studio
         [False, False, False, False, False, False, True, True] MusicPlayer_init))
       = Done (final (adjust_volumes studio [True, False] (final (adjust_volumes studio
           [False, False, False, False, False, False, True, True] MusicPlayer_init))))
   \<and> current_volume (final (adjust_volumes studio [True, False] (final (adjust_volumes studio
         [False, False, False, False, False, False, True, True] MusicPlayer_init))))
       = binary64 (2 / 10) + 1 / 2 ^ 55"
proof -
  define S where "S = final (adjust_volumes studio
     [False, False, False, False, False, False, True, True] MusicPlayer_init)"
  have i: "current_volume MusicPlayer_init = 1 / 2" "duration MusicPlayer_init \<le> 0"
    by (simp_all add: MusicPlayer_init_def)
  have v: "current_volume S = binary64 (2 / 10)"
    unfolding S_def
    using adjust_volumes_Done [OF adjust_volumes_quiet [OF i(2)], of studio
        "[False, False, False, False, False, False, True, True]"]
    by (simp only: i down_to_zero_up_to_fifth)
  have "duration S \<le> 0"
    by (simp only: S_def adjust_volumes_duration i)
  then have run: "adjust_volumes studio [True, False] S
                    = Done (final (adjust_volumes studio [True, False] S))"
    by (rule adjust_volumes_quiet)
  have m: "binary64 (2 / 10) \<in> {binary64 (1 / 10), binary64 (2 / 10), binary64 (3 / 10),
       binary64 (4 / 10), binary64 (5 / 10), binary64 (6 / 10), binary64 (7 / 10),
       binary64 (8 / 10), binary64 (9 / 10)}"
    by (intro insertI1 insertI2)
  from up_then_down_rounding [OF m v run]
  have "current_volume (final (adjust_volumes studio [True, False] S))
          = binary64 (2 / 10) + 1 / 2 ^ 55"
    by (simp only: if_True simp_thms)
  with m v run show ?thesis
    unfolding S_def by (intro conjI)
qed

end
